theory Spec2Isabelle
  imports Complex_Main "HOL-Library.Product_Lexorder" "HOL-Library.Sublist"
begin

section \<open>Conventions\<close>

text \<open>
  The package \<^verbatim>\<open>highlights_ai\<close> keeps every time stamp as a Python float holding seconds.
  The embedding reads a float as an exact real number: rounding, infinities and NaN are
  outside the model. Text is a list of 8-bit characters, read as the code points
  U+0000 to U+00FF. A prime marks a source name that HOL already uses (\<open>end'\<close>,
  \<open>total'\<close>, \<open>reason'\<close>).
\<close>

text \<open>The exceptions the modelled functions raise.\<close>

datatype error = ValueError | RuntimeError | TimeoutError | FileNotFoundError

section \<open>chunking.py\<close>

text \<open>\<^verbatim>\<open>ChunkMapping\<close>: the time stamp mapping of one chunk.\<close>

record ChunkMapping =
  original_video_start_time :: real
  original_video_end_time :: real
  chunk_start_time :: real
  chunk_end_time :: real
  chunk_index :: nat
  chunk_file_path :: string

text \<open>
  The \<^verbatim>\<open>while start < duration_sec\<close> loop of \<^verbatim>\<open>build_chunks_with_overlap\<close>, with the state
  (\<open>start\<close>, \<open>chunks\<close>) passed along. Nothing in the loop bounds the number of rounds, so it
  is a partial function: \<open>None\<close> stands for a loop that never returns.
\<close>

partial_function (option) chunk_loop ::
  "real \<Rightarrow> real \<Rightarrow> real \<Rightarrow> real \<Rightarrow> (real \<times> real) list \<Rightarrow> (real \<times> real) list option" where
  "chunk_loop duration_sec chunk_duration_sec step start chunks =
     (if start < duration_sec then
        (let end' = min (start + chunk_duration_sec) duration_sec;
             chunks' = chunks @ [(start, end')]
         in if end' \<ge> duration_sec then Some chunks'
            else chunk_loop duration_sec chunk_duration_sec step (start + step) chunks')
      else Some chunks)"

declare chunk_loop.simps [code]

definition build_chunks_with_overlap ::
  "real \<Rightarrow> real \<Rightarrow> real \<Rightarrow> (error + (real \<times> real) list) option" where
  "build_chunks_with_overlap duration_sec chunk_duration_sec overlap_sec =
     (if overlap_sec \<ge> chunk_duration_sec then Some (Inl ValueError)
      else (let step = chunk_duration_sec - overlap_sec
            in map_option Inr (chunk_loop duration_sec chunk_duration_sec step 0 [])))"

section \<open>gemini_analysis.py\<close>

text \<open>\<^verbatim>\<open>HighlightMoment\<close>: one highlight in chunk-relative time.\<close>

record HighlightMoment =
  start_sec :: real
  end_sec :: real
  reason :: string

subsection \<open>The string operations the parser calls\<close>

text \<open>The characters \<^verbatim>\<open>str.strip\<close> removes and \<^verbatim>\<open>\s\<close> matches: those for which
  \<^verbatim>\<open>str.isspace\<close> holds, below U+0100.\<close>

definition is_space :: "char \<Rightarrow> bool" where
  "is_space c = (c \<in> set [CHR 0x09, CHR 0x0A, CHR 0x0B, CHR 0x0C, CHR 0x0D,
                           CHR 0x1C, CHR 0x1D, CHR 0x1E, CHR 0x1F, CHR 0x20, CHR 0x85, CHR 0xA0])"

text \<open>The characters \<^verbatim>\<open>\d\<close> matches below U+0100.\<close>

definition is_digit :: "char \<Rightarrow> bool" where
  "is_digit c = (c \<in> set ''0123456789'')"

text \<open>
  \<^verbatim>\<open>str.upper\<close>, one character at a time: the letters a to z go to A to Z. Above U+007F the
  upper-case forms leave the 8-bit range or are other accented letters; none of them is
  or holds one of the letters the parser looks for, so those characters are left as they are.
\<close>

definition upper_char :: "char \<Rightarrow> char" where
  "upper_char c =
     (case map_of (zip ''abcdefghijklmnopqrstuvwxyz'' ''ABCDEFGHIJKLMNOPQRSTUVWXYZ'') c of
        None \<Rightarrow> c
      | Some u \<Rightarrow> u)"

definition py_upper :: "string \<Rightarrow> string" where
  "py_upper text = map upper_char text"

text \<open>\<^verbatim>\<open>sub in text\<close>: \<open>sub\<close> occurs in \<open>text\<close> as a contiguous run.\<close>

fun py_in :: "string \<Rightarrow> string \<Rightarrow> bool" where
  "py_in sub [] = (sub = [])"
| "py_in sub (c # cs) = (prefix sub (c # cs) \<or> py_in sub cs)"

text \<open>\<^verbatim>\<open>s.strip()\<close>.\<close>

definition py_strip :: "string \<Rightarrow> string" where
  "py_strip s = rev (dropWhile is_space (rev (dropWhile is_space s)))"

text \<open>\<^verbatim>\<open>s.split("\n")\<close>: never empty, one more piece than there are line feeds.\<close>

fun py_split_newline :: "string \<Rightarrow> string list" where
  "py_split_newline [] = [[]]"
| "py_split_newline (c # cs) =
     (if c = CHR 0x0A then [] # py_split_newline cs
      else (case py_split_newline cs of
              [] \<Rightarrow> [[c]]
            | l # ls \<Rightarrow> (c # l) # ls))"

subsection \<open>The regular expression\<close>

text \<open>
  The pattern of \<^verbatim>\<open>parse_moments\<close> is a sequence of single characters and of greedy
  repetitions of a character class, some of them capture groups. \<open>One p\<close> matches one
  character in \<open>p\<close>; \<open>Rep p mn cap\<close> matches \<open>mn\<close> or more characters in \<open>p\<close>, as many as
  possible, and is a capture group when \<open>cap\<close> holds.
\<close>

datatype rx = One "char \<Rightarrow> bool" | Rep "char \<Rightarrow> bool" nat bool

text \<open>
  Backtracking as \<^verbatim>\<open>re\<close> does it: a repetition first takes the longest run, then gives
  characters back one at a time, down to its minimum, until the rest of the pattern
  (the continuation \<open>k\<close>) matches.
\<close>

primrec greedy ::
  "(string \<Rightarrow> string list option) \<Rightarrow> bool \<Rightarrow> nat \<Rightarrow> string \<Rightarrow> nat \<Rightarrow> string list option" where
  "greedy k cap mn s 0 =
     (if 0 < mn then None
      else (case k s of
              Some gs \<Rightarrow> Some (if cap then [] # gs else gs)
            | None \<Rightarrow> None))"
| "greedy k cap mn s (Suc n) =
     (if Suc n < mn then None
      else (case k (drop (Suc n) s) of
              Some gs \<Rightarrow> Some (if cap then take (Suc n) s # gs else gs)
            | None \<Rightarrow> greedy k cap mn s n))"

text \<open>\<^verbatim>\<open>re.match\<close>: the pattern must match at the start of the string, not up to its end.
  The result is the list of captured groups.\<close>

primrec re_match :: "rx list \<Rightarrow> string \<Rightarrow> string list option" where
  "re_match [] = (\<lambda>s. Some [])"
| "re_match (r # rs) =
     (\<lambda>s. case r of
        One p \<Rightarrow> (case s of [] \<Rightarrow> None | c # cs \<Rightarrow> if p c then re_match rs cs else None)
      | Rep p mn cap \<Rightarrow> greedy (re_match rs) cap mn s (length (takeWhile p s)))"

text \<open>A literal character under \<^verbatim>\<open>re.I\<close>.\<close>

definition lit_i :: "char \<Rightarrow> char \<Rightarrow> bool" where
  "lit_i x c = (upper_char c = upper_char x)"

text \<open>\<^verbatim>\<open>r"MOMENT:\s*([\d.]+)\s+([\d.]+)\s+(.+)"\<close> with \<^verbatim>\<open>re.I\<close>; the dot matches every
  character but the line feed.\<close>

definition moment_pattern :: "rx list" where
  "moment_pattern =
     map (\<lambda>x. One (lit_i x)) ''MOMENT:'' @
     [Rep is_space 0 False,
      Rep (\<lambda>c. is_digit c \<or> c = CHR ''.'') 1 True,
      Rep is_space 1 False,
      Rep (\<lambda>c. is_digit c \<or> c = CHR ''.'') 1 True,
      Rep is_space 1 False,
      Rep (\<lambda>c. c \<noteq> CHR 0x0A) 1 True]"

subsection \<open>The conversion to a number\<close>

definition digits_value :: "string \<Rightarrow> nat" where
  "digits_value ds = foldl (\<lambda>n c. 10 * n + (of_char c - 48)) 0 ds"

text \<open>
  Python's \<^verbatim>\<open>float\<close> on the strings a group of the pattern can hold, which are made of digits
  and dots: digits with at most one dot among them and at least one digit are a number;
  anything else raises \<^verbatim>\<open>ValueError\<close>.
\<close>

definition py_float :: "string \<Rightarrow> error + real" where
  "py_float s =
     (let ip = takeWhile is_digit s; rest = dropWhile is_digit s in
      case rest of
        [] \<Rightarrow> if ip = [] then Inl ValueError else Inr (real (digits_value ip))
      | c # fp \<Rightarrow>
          if c = CHR ''.'' \<and> list_all is_digit fp \<and> ip @ fp \<noteq> []
          then Inr (real (digits_value ip) + real (digits_value fp) / 10 ^ length fp)
          else Inl ValueError)"

subsection \<open>parse_moments\<close>

text \<open>The \<^verbatim>\<open>for line in ...\<close> loop; \<open>moments\<close> is the list built so far. An exception of
  \<^verbatim>\<open>float\<close> is not caught, so it ends the loop. A match of the pattern has three groups
  (\<open>moment_pattern_groups\<close> below), read here as \<open>groups ! 0\<close> to \<open>groups ! 2\<close>.\<close>

fun parse_lines :: "string list \<Rightarrow> HighlightMoment list \<Rightarrow> error + HighlightMoment list" where
  "parse_lines [] moments = Inr moments"
| "parse_lines (line # rest) moments =
     (case re_match moment_pattern (py_strip line) of
        None \<Rightarrow> parse_lines rest moments
      | Some groups \<Rightarrow>
          (case py_float (groups ! 0) of
             Inl err \<Rightarrow> Inl err
           | Inr start \<Rightarrow>
               (case py_float (groups ! 1) of
                  Inl err \<Rightarrow> Inl err
                | Inr end' \<Rightarrow>
                    (let reason' = py_strip (groups ! 2) in
                     if end' > start \<and> start \<ge> 0
                     then parse_lines rest
                            (moments @
                               [\<lparr>HighlightMoment.start_sec = start, end_sec = end',
                                 reason = reason'\<rparr>])
                     else parse_lines rest moments))))"

definition parse_moments :: "string \<Rightarrow> error + HighlightMoment list" where
  "parse_moments text =
     (if text = [] \<or> py_in ''NONE'' (py_upper text) then Inr []
      else parse_lines (py_split_newline (py_strip text)) [])"

text \<open>
  \<^verbatim>\<open>analyze_chunk_with_gemini\<close> uploads a chunk, polls until the file is active and asks
  the model. The embedding takes its outcome for the chunk file at a path as given: the raw
  response text, or the exception raised (\<^verbatim>\<open>TimeoutError\<close> and \<^verbatim>\<open>RuntimeError\<close> come from
  \<^verbatim>\<open>_wait_for_file_active\<close>, \<^verbatim>\<open>FileNotFoundError\<close> from the check of the path).
\<close>

type_synonym analyzer = "string \<Rightarrow> error + string"

definition get_chunk_highlights ::
  "analyzer \<Rightarrow> ChunkMapping \<Rightarrow> error + HighlightMoment list \<times> string" where
  "get_chunk_highlights analyze mapping =
     (case analyze (chunk_file_path mapping) of
        Inl err \<Rightarrow> Inl err
      | Inr raw \<Rightarrow>
          (case parse_moments raw of
             Inl err \<Rightarrow> Inl err
           | Inr moments \<Rightarrow> Inr (moments, raw)))"

section \<open>timestamps.py\<close>

text \<open>\<^verbatim>\<open>GlobalSegment\<close>: a highlight segment in original video time.\<close>

record GlobalSegment =
  start_sec :: real
  end_sec :: real
  reason :: string

subsection \<open>normalize_to_original_time\<close>

fun normalize_loop ::
  "ChunkMapping \<Rightarrow> HighlightMoment list \<Rightarrow> GlobalSegment list \<Rightarrow> GlobalSegment list" where
  "normalize_loop mapping [] segments = segments"
| "normalize_loop mapping (m # rest) segments =
     (let orig_start = original_video_start_time mapping;
          chunk_end = chunk_end_time mapping;
          local_start = max 0 (min (HighlightMoment.start_sec m) chunk_end);
          local_end = max local_start (min (HighlightMoment.end_sec m) chunk_end)
      in if local_end \<le> local_start then normalize_loop mapping rest segments
         else normalize_loop mapping rest
                (segments @
                   [\<lparr>start_sec = orig_start + local_start,
                     end_sec = orig_start + local_end,
                     reason = HighlightMoment.reason m\<rparr>]))"

definition normalize_to_original_time ::
  "ChunkMapping \<Rightarrow> HighlightMoment list \<Rightarrow> GlobalSegment list" where
  "normalize_to_original_time mapping moments = normalize_loop mapping moments []"

subsection \<open>merge_overlapping_or_adjacent\<close>

text \<open>The sort key \<^verbatim>\<open>lambda s: (s.start_sec, s.end_sec)\<close>; pairs are ordered lexicographically,
  as Python tuples are.\<close>

definition seg_key :: "GlobalSegment \<Rightarrow> real \<times> real" where
  "seg_key s = (start_sec s, end_sec s)"

text \<open>The body of \<^verbatim>\<open>for s in sorted_segs[1:]\<close>; \<open>merged\<close> is the list built so far, whose
  last element is the one the loop may replace.\<close>

fun merge_loop :: "real \<Rightarrow> GlobalSegment list \<Rightarrow> GlobalSegment list \<Rightarrow> GlobalSegment list" where
  "merge_loop gap_sec merged [] = merged"
| "merge_loop gap_sec merged (s # rest) =
     (let lst = last merged in
      if start_sec s \<le> end_sec lst + gap_sec
      then merge_loop gap_sec
             (butlast merged @
                [\<lparr>start_sec = start_sec lst,
                  end_sec = max (end_sec lst) (end_sec s),
                  reason = reason lst\<rparr>]) rest
      else merge_loop gap_sec (merged @ [s]) rest)"

text \<open>\<^verbatim>\<open>sorted\<close> is a stable sort, as \<open>sort_key\<close> is. The guard on the empty list comes first,
  so \<open>hd\<close> and \<open>tl\<close> are only taken of a list that has a first element.\<close>

definition merge_overlapping_or_adjacent :: "GlobalSegment list \<Rightarrow> real \<Rightarrow> GlobalSegment list" where
  "merge_overlapping_or_adjacent segments gap_sec =
     (if segments = [] then []
      else (let sorted_segs = sort_key seg_key segments
            in merge_loop gap_sec [hd sorted_segs] (tl sorted_segs)))"

subsection \<open>cap_total_duration\<close>

text \<open>The \<^verbatim>\<open>for s in segments\<close> loop with its state (\<open>total'\<close>, \<open>result\<close>); \<^verbatim>\<open>break\<close> leaves
  the rest of the list unread.\<close>

fun cap_loop ::
  "real \<Rightarrow> real \<Rightarrow> GlobalSegment list \<Rightarrow> GlobalSegment list \<Rightarrow> GlobalSegment list" where
  "cap_loop max_duration_sec total' result [] = result"
| "cap_loop max_duration_sec total' result (s # rest) =
     (let seg_dur = end_sec s - start_sec s in
      if total' + seg_dur \<le> max_duration_sec
      then cap_loop max_duration_sec (total' + seg_dur) (result @ [s]) rest
      else (let remaining = max_duration_sec - total' in
            if remaining > 1
            then result @
                   [\<lparr>start_sec = start_sec s,
                     end_sec = start_sec s + remaining,
                     reason = reason s\<rparr>]
            else result))"

definition cap_total_duration :: "GlobalSegment list \<Rightarrow> real \<Rightarrow> GlobalSegment list" where
  "cap_total_duration segments max_duration_sec = cap_loop max_duration_sec 0 [] segments"

section \<open>highlight_build.py, config.py and pipeline.py\<close>

text \<open>\<^verbatim>\<open>sum(s.end_sec - s.start_sec for s in capped)\<close>.\<close>

definition total_duration :: "GlobalSegment list \<Rightarrow> real" where
  "total_duration segs = sum_list (map (\<lambda>s. end_sec s - start_sec s) segs)"

text \<open>\<^verbatim>\<open>build_highlight_video\<close> hands the segments to ffmpeg, which the embedding takes to
  succeed; what is left is its check that there is a segment to write.\<close>

definition build_highlight_video :: "GlobalSegment list \<Rightarrow> error + unit" where
  "build_highlight_video segs = (if segs = [] then Inl ValueError else Inr ())"

text \<open>\<^verbatim>\<open>HighlightConfig\<close> with the defaults of its declaration (the paths are made absolute
  by \<^verbatim>\<open>__post_init__\<close>, and the key is read from the environment: both outside the model).\<close>

record HighlightConfig =
  video_path :: string
  output_dir :: string
  output_basename :: string
  chunk_duration_sec :: real
  chunk_overlap_sec :: real
  highlight_max_duration_sec :: real
  highlight_min_duration_sec :: real
  crossfade_duration_sec :: real
  gemini_model :: string
  gemini_api_key :: string

definition default_config :: HighlightConfig where
  "default_config =
     \<lparr>video_path = '''', output_dir = ''output'', output_basename = ''highlights'',
      chunk_duration_sec = 90, chunk_overlap_sec = 8,
      highlight_max_duration_sec = 240, highlight_min_duration_sec = 180,
      crossfade_duration_sec = 1 / 2,
      gemini_model = ''gemini-2.5-flash'', gemini_api_key = ''''\<rparr>"

text \<open>The part of the summary that \<^verbatim>\<open>run_pipeline\<close> computes from the segments.\<close>

record summary =
  highlight_duration_sec :: real
  highlight_segments :: "GlobalSegment list"
  num_chunks :: nat

text \<open>The \<^verbatim>\<open>for i, m in enumerate(mappings)\<close> loop of \<^verbatim>\<open>run_pipeline\<close>: there is no
  \<^verbatim>\<open>try\<close> around \<^verbatim>\<open>get_chunk_highlights\<close>, so an exception leaves the loop and the function.\<close>

fun analyze_loop ::
  "analyzer \<Rightarrow> ChunkMapping list \<Rightarrow> GlobalSegment list \<Rightarrow> error + GlobalSegment list" where
  "analyze_loop analyze [] all_global_segments = Inr all_global_segments"
| "analyze_loop analyze (m # rest) all_global_segments =
     (case get_chunk_highlights analyze m of
        Inl err \<Rightarrow> Inl err
      | Inr (moments, raw_output) \<Rightarrow>
          analyze_loop analyze rest
            (all_global_segments @ normalize_to_original_time m moments))"

text \<open>\<^verbatim>\<open>run_pipeline\<close> from the chunk mappings on: the checks of the video path and of the
  API key and the cutting of the chunks by ffmpeg come before and are taken to have
  succeeded. The merger is called with its default gap of two seconds.\<close>

definition run_pipeline :: "analyzer \<Rightarrow> HighlightConfig \<Rightarrow> ChunkMapping list \<Rightarrow> error + summary" where
  "run_pipeline analyze config mappings =
     (case analyze_loop analyze mappings [] of
        Inl err \<Rightarrow> Inl err
      | Inr all_global_segments \<Rightarrow>
          (let merged = merge_overlapping_or_adjacent all_global_segments 2;
               capped = cap_total_duration merged (highlight_max_duration_sec config);
               total_highlight_dur = total_duration capped
           in case build_highlight_video capped of
                Inl err \<Rightarrow> Inl err
              | Inr u \<Rightarrow>
                  Inr \<lparr>highlight_duration_sec = total_highlight_dur,
                       highlight_segments = capped,
                       num_chunks = length mappings\<rparr>))"

section \<open>Definitions for the statements and proofs\<close>

text \<open>A proof device: the sweep of the merger with the segment under construction held apart
  from the finished ones. \<open>sweep_merge_loop\<close> below shows that it computes what \<open>merge_loop\<close>
  does.\<close>

fun sweep :: "real \<Rightarrow> GlobalSegment \<Rightarrow> GlobalSegment list \<Rightarrow> GlobalSegment list" where
  "sweep g cur [] = [cur]"
| "sweep g cur (s # rest) =
     (if start_sec s \<le> end_sec cur + g
      then sweep g (cur\<lparr>end_sec := max (end_sec cur) (end_sec s)\<rparr>) rest
      else cur # sweep g s rest)"

text \<open>The items of a pattern that are capture groups.\<close>

fun is_capture :: "rx \<Rightarrow> bool" where
  "is_capture (One p) = False"
| "is_capture (Rep p mn cap) = cap"

text \<open>Two segments lie more than \<open>g\<close> apart.\<close>

definition apart :: "real \<Rightarrow> GlobalSegment \<Rightarrow> GlobalSegment \<Rightarrow> bool" where
  "apart g a b = (end_sec a + g < start_sec b)"


text \<open>
  The normalizer as the specification words it: clamp a local time into \<open>[0, d]\<close>, drop the
  moment when the clamped end is not after the clamped start, shift the rest by the start of
  the window.
\<close>

definition spec_clamp :: "real \<Rightarrow> real \<Rightarrow> real" where
  "spec_clamp d x = max 0 (min x d)"

definition spec_normalize_moment :: "ChunkMapping \<Rightarrow> HighlightMoment \<Rightarrow> GlobalSegment list" where
  "spec_normalize_moment w m =
     (let s = spec_clamp (chunk_end_time w) (HighlightMoment.start_sec m);
          e = spec_clamp (chunk_end_time w) (HighlightMoment.end_sec m)
      in if e \<le> s then []
         else [\<lparr>start_sec = original_video_start_time w + s,
                 end_sec = original_video_start_time w + e,
                 reason = HighlightMoment.reason m\<rparr>])"

definition spec_normalize :: "ChunkMapping \<Rightarrow> HighlightMoment list \<Rightarrow> GlobalSegment list" where
  "spec_normalize w moments = concat (map (spec_normalize_moment w) moments)"


text \<open>Two chunks of a source video and an analyzer whose wait for the first chunk's file
  times out, while the second chunk is analysed and has a moment.\<close>

definition two_chunks :: "ChunkMapping list" where
  "two_chunks =
     [\<lparr>original_video_start_time = 0, original_video_end_time = 90, chunk_start_time = 0,
       chunk_end_time = 90, chunk_index = 0,
       chunk_file_path = ''chunk_0000_00m00s_01m30s.mp4''\<rparr>,
      \<lparr>original_video_start_time = 82, original_video_end_time = 172, chunk_start_time = 0,
       chunk_end_time = 90, chunk_index = 1,
       chunk_file_path = ''chunk_0001_01m22s_02m52s.mp4''\<rparr>]"


definition always_answers :: analyzer where
  "always_answers path = Inr ''MOMENT: 1.0 3.5 goal''"

section \<open>Properties of the window tiler\<close>












lemma tiler_rejects_overlap:
  "chunk_len \<le> overlap_sec \<Longrightarrow>
   build_chunks_with_overlap duration_sec chunk_len overlap_sec = Some (Inl ValueError)"
  by (simp add: build_chunks_with_overlap_def)

section \<open>Claim about the window tiler\<close>



section \<open>Properties of the moment parser\<close>

lemma py_in_self: "py_in sub (sub @ post)"
proof (cases "sub @ post")
  case Nil
  then show ?thesis by simp
next
  case (Cons a l)
  have "prefix sub (sub @ post)" by simp
  then have "prefix sub (a # l)" unfolding Cons .
  then have "py_in sub (a # l)" by simp
  then show ?thesis unfolding Cons .
qed

lemma py_in_append: "py_in sub (pre @ sub @ post)"
proof (induction pre)
  case Nil
  show ?case using py_in_self [of sub post] by simp
next
  case (Cons c pre)
  then show ?case by simp
qed

text \<open>\<open>py_in\<close> is the contiguous-sublist relation of the library.\<close>

lemma py_in_sublist: "py_in sub s = sublist sub s"
  by (induction s) (auto simp: sublist_Cons_right)

lemma upper_char_letters:
  "upper_char (CHR ''n'') = CHR ''N''" "upper_char (CHR ''N'') = CHR ''N''"
  "upper_char (CHR ''o'') = CHR ''O''" "upper_char (CHR ''O'') = CHR ''O''"
  "upper_char (CHR ''e'') = CHR ''E''" "upper_char (CHR ''E'') = CHR ''E''"
  by (simp_all add: upper_char_def)

lemma py_upper_append: "py_upper (xs @ ys) = py_upper xs @ py_upper ys"
  by (simp add: py_upper_def)

lemma sentinel_empties:
  "py_in ''NONE'' (py_upper text) \<Longrightarrow> parse_moments text = Inr []"
  by (simp add: parse_moments_def)

lemma sentinel_inside:
  "py_upper w = ''NONE'' \<Longrightarrow> parse_moments (pre @ w @ post) = Inr []"
proof -
  assume w: "py_upper w = ''NONE''"
  have "py_in ''NONE'' (py_upper pre @ ''NONE'' @ py_upper post)"
    by (rule py_in_append)
  then have "py_in ''NONE'' (py_upper (pre @ w @ post))"
    using w by (simp add: py_upper_append)
  then show ?thesis by (rule sentinel_empties)
qed

text \<open>A match returns one string for each capture group of the pattern.\<close>

lemma greedy_groups:
  "greedy k cap mn s n = Some gs \<Longrightarrow>
   \<exists>t gs'. k t = Some gs' \<and> length gs = length gs' + (if cap then 1 else 0)"
proof (induction n)
  case 0
  then obtain gs' where "k s = Some gs'" and "gs = (if cap then [] # gs' else gs')"
    by (auto split: if_splits option.splits)
  then have "k s = Some gs' \<and> length gs = length gs' + (if cap then 1 else 0)"
    by simp
  then show ?case by blast
next
  case (Suc n)
  show ?case
  proof (cases "k (drop (Suc n) s)")
    case None
    then have "greedy k cap mn s n = Some gs"
      using Suc.prems by (simp split: if_splits)
    then show ?thesis by (rule Suc.IH)
  next
    case (Some gs')
    then have "length gs = length gs' + (if cap then 1 else 0)"
      using Suc.prems by (auto split: if_splits)
    then show ?thesis using Some by blast
  qed
qed

lemma re_match_groups:
  "re_match rs s = Some gs \<Longrightarrow> length gs = length (filter is_capture rs)"
proof (induction rs arbitrary: s gs)
  case Nil
  then show ?case by simp
next
  case (Cons r rs)
  show ?case
  proof (cases r)
    case (One p)
    then obtain c cs where "s = c # cs" "re_match rs cs = Some gs"
      using Cons.prems by (auto split: list.splits if_splits)
    then show ?thesis using Cons.IH One by simp
  next
    case (Rep p mn cap)
    then have "greedy (re_match rs) cap mn s (length (takeWhile p s)) = Some gs"
      using Cons.prems by simp
    then obtain t gs' where "re_match rs t = Some gs'"
      and "length gs = length gs' + (if cap then 1 else 0)"
      using greedy_groups by blast
    then show ?thesis using Cons.IH [of t gs'] Rep by simp
  qed
qed

lemma moment_pattern_groups:
  "re_match moment_pattern s = Some gs \<Longrightarrow> length gs = 3"
  using re_match_groups [of moment_pattern s gs] by (simp add: moment_pattern_def)

text \<open>A line the pattern does not match is skipped.\<close>

lemma unmatched_line_skipped:
  "re_match moment_pattern (py_strip line) = None \<Longrightarrow>
   parse_lines (line # rest) moments = parse_lines rest moments"
  by simp

lemma parser_example_second_line:
  "parse_moments (''MOMENT: 5 2 bad'' @ [CHR 0x0A] @ ''MOMENT: 2 5 good'')
   = Inr [\<lparr>HighlightMoment.start_sec = 2, end_sec = 5, reason = ''good''\<rparr>]"
  by code_simp

lemma parser_example_valid_line:
  "parse_moments ''MOMENT: 1.0 3.5 absent defender''
   = Inr [\<lparr>HighlightMoment.start_sec = 1, end_sec = 7 / 2, reason = ''absent defender''\<rparr>]"
  by code_simp

section \<open>Claims about the moment parser\<close>

text \<open>
  C4 says that \<open>parse_moments\<close> returns a list for every input string and never raises. The
  pattern lets any run of digits and dots through as a number, and \<^verbatim>\<open>float\<close> raises
  \<^verbatim>\<open>ValueError\<close> on a run with two dots; nothing catches it. On the line below the parser
  raises instead of skipping the line.
\<close>

theorem parse_moments_raises_on_two_dots:
  "re_match moment_pattern ''MOMENT: 1.2.3 4.0 goal'' = Some [''1.2.3'', ''4.0'', ''goal''] \<and>
   py_float ''1.2.3'' = Inl ValueError \<and>
   parse_moments ''MOMENT: 1.2.3 4.0 goal'' = Inl ValueError"
  by code_simp

text \<open>
  C7. For every response text that contains the sentinel \<^verbatim>\<open>NONE\<close> in any mix of upper and
  lower case (the text is \<open>pre @ w @ post\<close> where \<open>w\<close> in upper case is \<^verbatim>\<open>NONE\<close>),
  \<open>parse_moments\<close> returns the empty list, whatever well-formed lines \<open>pre\<close> and \<open>post\<close> hold.
  In particular the text \<^verbatim>\<open>"MOMENT: 1.0 3.5 goal\nNONE\n"\<close> gives the empty list.
\<close>

theorem sentinel_short_circuits:
  "(py_upper w = ''NONE'' \<longrightarrow> parse_moments (pre @ w @ post) = Inr []) \<and>
   parse_moments (''MOMENT: 1.0 3.5 goal'' @ [CHR 0x0A] @ ''NONE'' @ [CHR 0x0A]) = Inr []"
proof -
  have "py_upper ''NONE'' = ''NONE''"
    by (simp add: py_upper_def upper_char_letters)
  then have "parse_moments ((''MOMENT: 1.0 3.5 goal'' @ [CHR 0x0A]) @ ''NONE'' @ [CHR 0x0A]) = Inr []"
    by (rule sentinel_inside)
  then show ?thesis using sentinel_inside [of w pre post] by simp
qed

theorem sentinel_short_circuits_witness:
  "py_upper ''None'' = ''NONE'' \<and>
   parse_moments (''MOMENT: 2 5 save'' @ [CHR 0x0A] @ ''None'') = Inr []"
proof -
  have h: "py_upper ''None'' = ''NONE''"
    by (simp add: py_upper_def upper_char_letters)
  have "py_upper ''None'' = ''NONE'' \<longrightarrow>
      parse_moments ((''MOMENT: 2 5 save'' @ [CHR 0x0A]) @ ''None'' @ []) = Inr []"
    using sentinel_short_circuits [of "''None''" "''MOMENT: 2 5 save'' @ [CHR 0x0A]" "[]"]
    by blast
  then show ?thesis using h by simp
qed

text \<open>
  C9. \<open>parse_moments\<close> returns the empty list whenever the four letters n, o, n, e, each in
  either case, stand next to each other anywhere in the response text, also inside another
  word: a text whose only line is a well-formed moment described as
  \<^verbatim>\<open>nonexistent defender\<close> gives no moment (\<open>parser_example_valid_line\<close> shows that the same
  line with another description gives one).
\<close>

theorem none_substring_empties:
  "(c1 \<in> {CHR ''n'', CHR ''N''} \<and> c2 \<in> {CHR ''o'', CHR ''O''} \<and>
    c3 \<in> {CHR ''n'', CHR ''N''} \<and> c4 \<in> {CHR ''e'', CHR ''E''} \<longrightarrow>
      parse_moments (pre @ [c1, c2, c3, c4] @ post) = Inr []) \<and>
   parse_moments ''MOMENT: 1.0 3.5 nonexistent defender'' = Inr [] \<and>
   parse_moments (''MOMENT: 1.0 3.5 goal'' @ [CHR 0x0A] @ ''MOMENT: 7 9 nonexistent defender''
                  @ [CHR 0x0A] @ ''MOMENT: 12 15 save'') = Inr []"
proof -
  have gen: "c1 \<in> {CHR ''n'', CHR ''N''} \<and> c2 \<in> {CHR ''o'', CHR ''O''} \<and>
    c3 \<in> {CHR ''n'', CHR ''N''} \<and> c4 \<in> {CHR ''e'', CHR ''E''} \<longrightarrow>
      parse_moments (pre @ [c1, c2, c3, c4] @ post) = Inr []"
  proof
    assume "c1 \<in> {CHR ''n'', CHR ''N''} \<and> c2 \<in> {CHR ''o'', CHR ''O''} \<and>
      c3 \<in> {CHR ''n'', CHR ''N''} \<and> c4 \<in> {CHR ''e'', CHR ''E''}"
    then have "py_upper [c1, c2, c3, c4] = ''NONE''"
      by (auto simp: py_upper_def upper_char_letters)
    then show "parse_moments (pre @ [c1, c2, c3, c4] @ post) = Inr []"
      by (rule sentinel_inside)
  qed
  have up: "py_upper ''none'' = ''NONE''"
    by (simp add: py_upper_def upper_char_letters)
  have "parse_moments (''MOMENT: 1.0 3.5 '' @ ''none'' @ ''xistent defender'') = Inr []"
    using up by (rule sentinel_inside)
  moreover have "parse_moments ((''MOMENT: 1.0 3.5 goal'' @ [CHR 0x0A] @ ''MOMENT: 7 9 '') @ ''none''
      @ (''xistent defender'' @ [CHR 0x0A] @ ''MOMENT: 12 15 save'')) = Inr []"
    using up by (rule sentinel_inside)
  ultimately show ?thesis using gen by simp
qed

theorem none_substring_empties_witness:
  "CHR ''n'' \<in> {CHR ''n'', CHR ''N''} \<and> CHR ''O'' \<in> {CHR ''o'', CHR ''O''} \<and>
   CHR ''N'' \<in> {CHR ''n'', CHR ''N''} \<and> CHR ''e'' \<in> {CHR ''e'', CHR ''E''} \<and>
   parse_moments ''MOMENT: 2 5 nONe of them stopped it'' = Inr []"
proof -
  have h: "CHR ''n'' \<in> {CHR ''n'', CHR ''N''} \<and> CHR ''O'' \<in> {CHR ''o'', CHR ''O''} \<and>
     CHR ''N'' \<in> {CHR ''n'', CHR ''N''} \<and> CHR ''e'' \<in> {CHR ''e'', CHR ''E''}"
    by simp
  then have "parse_moments (''MOMENT: 2 5 '' @ [CHR ''n'', CHR ''O'', CHR ''N'', CHR ''e'']
      @ '' of them stopped it'') = Inr []"
    using none_substring_empties [of "CHR ''n''" "CHR ''O''" "CHR ''N''" "CHR ''e''"
        "''MOMENT: 2 5 ''" "'' of them stopped it''"]
    by blast
  then show ?thesis using h by simp
qed

section \<open>Properties of the timestamp normalizer\<close>

text \<open>The loop computes what the specification's wording describes, for every window, also
  one whose local duration is negative (nothing is emitted then).\<close>

lemma normalize_loop_acc:
  "normalize_loop w ms acc = acc @ spec_normalize w ms"
proof (induction ms arbitrary: acc)
  case Nil
  then show ?case by (simp add: spec_normalize_def)
next
  case (Cons m ms)
  let ?d = "chunk_end_time w"
  let ?ls = "max 0 (min (HighlightMoment.start_sec m) ?d)"
  let ?le = "max ?ls (min (HighlightMoment.end_sec m) ?d)"
  have drop: "(?le \<le> ?ls) =
      (spec_clamp ?d (HighlightMoment.end_sec m) \<le> spec_clamp ?d (HighlightMoment.start_sec m))"
    by (auto simp: spec_clamp_def)
  have keep: "\<not> ?le \<le> ?ls \<Longrightarrow> ?le = spec_clamp ?d (HighlightMoment.end_sec m)"
    by (auto simp: spec_clamp_def)
  have ls: "?ls = spec_clamp ?d (HighlightMoment.start_sec m)"
    by (simp add: spec_clamp_def)
  show ?case
  proof (cases "?le \<le> ?ls")
    case True
    then have "spec_normalize_moment w m = []"
      using drop by (simp add: spec_normalize_moment_def Let_def)
    then show ?thesis using True Cons.IH by (simp add: spec_normalize_def Let_def)
  next
    case False
    then have "spec_normalize_moment w m =
        [\<lparr>start_sec = original_video_start_time w + ?ls,
          end_sec = original_video_start_time w + ?le,
          reason = HighlightMoment.reason m\<rparr>]"
      using drop keep ls by (simp add: spec_normalize_moment_def Let_def)
    then show ?thesis using False Cons.IH by (simp add: spec_normalize_def Let_def)
  qed
qed

lemma spec_normalize_moment_bounds:
  "g \<in> set (spec_normalize_moment w m) \<Longrightarrow>
   original_video_start_time w \<le> start_sec g \<and> start_sec g < end_sec g \<and>
   end_sec g \<le> original_video_start_time w + chunk_end_time w"
  by (auto simp: spec_normalize_moment_def spec_clamp_def Let_def split: if_splits)

section \<open>Claim about the timestamp normalizer\<close>

text \<open>
  C6. For every window and every list of moments, \<open>normalize_to_original_time\<close> does what the
  specification words: it clamps the local start and the local end of each moment into
  \<open>[0, chunk_end_time]\<close> (\<open>spec_clamp\<close>, which stays in that interval when the local duration
  is not negative), drops the moment exactly when the clamped end is at most the clamped
  start, and otherwise emits the segment shifted by \<open>original_video_start_time\<close>. So every
  emitted segment lies within \<open>[start, start + chunk_end_time]\<close> of the window, and for a
  window that starts at 100 and is 30 long the moment from -5 to 35 gives the segment from
  100 to 130.
\<close>

theorem normalize_clamps_drops_offsets:
  "normalize_to_original_time w moments = spec_normalize w moments \<and>
   (0 \<le> chunk_end_time w \<longrightarrow>
      (\<forall>x. 0 \<le> spec_clamp (chunk_end_time w) x \<and>
           spec_clamp (chunk_end_time w) x \<le> chunk_end_time w)) \<and>
   (\<forall>g\<in>set (normalize_to_original_time w moments).
      original_video_start_time w \<le> start_sec g \<and> start_sec g < end_sec g \<and>
      end_sec g \<le> original_video_start_time w + chunk_end_time w) \<and>
   (original_video_start_time w = 100 \<and> chunk_end_time w = 30 \<and>
    HighlightMoment.start_sec m = -5 \<and> HighlightMoment.end_sec m = 35 \<longrightarrow>
      normalize_to_original_time w [m] =
        [\<lparr>start_sec = 100, end_sec = 130, reason = HighlightMoment.reason m\<rparr>])"
proof -
  have eq: "\<And>ms. normalize_to_original_time w ms = spec_normalize w ms"
    by (simp add: normalize_to_original_time_def normalize_loop_acc)
  have "\<forall>g\<in>set (spec_normalize w moments).
      original_video_start_time w \<le> start_sec g \<and> start_sec g < end_sec g \<and>
      end_sec g \<le> original_video_start_time w + chunk_end_time w"
    using spec_normalize_moment_bounds by (auto simp: spec_normalize_def)
  moreover have "0 \<le> chunk_end_time w \<longrightarrow>
      (\<forall>x. 0 \<le> spec_clamp (chunk_end_time w) x \<and>
           spec_clamp (chunk_end_time w) x \<le> chunk_end_time w)"
    by (auto simp: spec_clamp_def)
  moreover have "original_video_start_time w = 100 \<and> chunk_end_time w = 30 \<and>
    HighlightMoment.start_sec m = -5 \<and> HighlightMoment.end_sec m = 35 \<longrightarrow>
      spec_normalize w [m] =
        [\<lparr>start_sec = 100, end_sec = 130, reason = HighlightMoment.reason m\<rparr>]"
    by (simp add: spec_normalize_def spec_normalize_moment_def spec_clamp_def)
  ultimately show ?thesis unfolding eq by blast
qed

theorem normalize_clamps_drops_offsets_witness:
  "normalize_to_original_time
     \<lparr>original_video_start_time = 100, original_video_end_time = 130, chunk_start_time = 0,
      chunk_end_time = 30, chunk_index = 1, chunk_file_path = ''chunk_0001_01m40s_02m10s.mp4''\<rparr>
     [\<lparr>HighlightMoment.start_sec = -5, end_sec = 35, reason = ''goal''\<rparr>,
      \<lparr>HighlightMoment.start_sec = 40, end_sec = 50, reason = ''late''\<rparr>]
   = [\<lparr>start_sec = 100, end_sec = 130, reason = ''goal''\<rparr>]"
  using normalize_clamps_drops_offsets [of
     "\<lparr>original_video_start_time = 100, original_video_end_time = 130, chunk_start_time = 0,
      chunk_end_time = 30, chunk_index = 1, chunk_file_path = ''chunk_0001_01m40s_02m10s.mp4''\<rparr>"
     "[\<lparr>HighlightMoment.start_sec = -5, end_sec = 35, reason = ''goal''\<rparr>,
      \<lparr>HighlightMoment.start_sec = 40, end_sec = 50, reason = ''late''\<rparr>]"]
  by (simp add: spec_normalize_def spec_normalize_moment_def spec_clamp_def)

section \<open>Properties of the merger\<close>

lemma extend_record:
  "\<lparr>start_sec = start_sec x, end_sec = e, reason = reason x\<rparr> = x\<lparr>end_sec := e\<rparr>"
  by (cases x) simp

lemma sweep_merge_loop:
  "merged \<noteq> [] \<Longrightarrow> merge_loop g merged ss = butlast merged @ sweep g (last merged) ss"
proof (induction ss arbitrary: merged)
  case Nil
  then show ?case by simp
next
  case (Cons s ss)
  show ?case
  proof (cases "start_sec s \<le> end_sec (last merged) + g")
    case True
    let ?m = "butlast merged @
                [\<lparr>start_sec = start_sec (last merged),
                  end_sec = max (end_sec (last merged)) (end_sec s),
                  reason = reason (last merged)\<rparr>]"
    have "merge_loop g ?m ss = butlast ?m @ sweep g (last ?m) ss"
      by (rule Cons.IH) simp
    moreover have "last ?m = (last merged)\<lparr>end_sec := max (end_sec (last merged)) (end_sec s)\<rparr>"
      by (simp add: extend_record)
    ultimately show ?thesis using True by (simp add: Let_def extend_record)
  next
    case False
    have "merge_loop g (merged @ [s]) ss = butlast (merged @ [s]) @ sweep g (last (merged @ [s])) ss"
      by (rule Cons.IH) simp
    then show ?thesis using False Cons.prems by (simp add: Let_def)
  qed
qed

lemma merge_sweep:
  "segments \<noteq> [] \<Longrightarrow>
   merge_overlapping_or_adjacent segments g =
     sweep g (hd (sort_key seg_key segments)) (tl (sort_key seg_key segments))"
  by (simp add: merge_overlapping_or_adjacent_def Let_def sweep_merge_loop)

lemma sweep_not_Nil: "sweep g cur ss \<noteq> []"
  by (induction ss arbitrary: cur) auto

lemma sweep_hd:
  "start_sec (hd (sweep g cur ss)) = start_sec cur \<and> end_sec cur \<le> end_sec (hd (sweep g cur ss))"
proof (induction ss arbitrary: cur)
  case Nil
  then show ?case by simp
next
  case (Cons s ss)
  show ?case
  proof (cases "start_sec s \<le> end_sec cur + g")
    case True
    with Cons.IH [of "cur\<lparr>end_sec := max (end_sec cur) (end_sec s)\<rparr>"] show ?thesis
      by simp
  next
    case False
    then show ?thesis by simp
  qed
qed

lemma sweep_apart: "successively (apart g) (sweep g cur ss)"
proof (induction ss arbitrary: cur)
  case Nil
  then show ?case by simp
next
  case (Cons s ss)
  show ?case
  proof (cases "start_sec s \<le> end_sec cur + g")
    case True
    then show ?thesis using Cons.IH by simp
  next
    case False
    obtain y ys where ys: "sweep g s ss = y # ys"
      using sweep_not_Nil [of g s ss] by (cases "sweep g s ss") auto
    have "start_sec y = start_sec s"
      using sweep_hd [of g s ss] ys by simp
    with False have "apart g cur y"
      by (simp add: apart_def)
    moreover have "successively (apart g) (y # ys)"
      using Cons.IH [of s] ys by simp
    ultimately show ?thesis using False ys by simp
  qed
qed



lemma sweep_keeps_self:
  "successively (apart g) (x # xs) \<Longrightarrow> sweep g x xs = x # xs"
  by (induction xs arbitrary: x) (auto simp: apart_def)

lemma sweep_key_lower:
  "k \<le> seg_key cur \<Longrightarrow> \<forall>t\<in>set ss. k \<le> seg_key t \<Longrightarrow> \<forall>x\<in>set (sweep g cur ss). k \<le> seg_key x"
proof (induction ss arbitrary: cur)
  case Nil
  then show ?case by simp
next
  case (Cons s ss)
  have "k \<le> seg_key (cur\<lparr>end_sec := max (end_sec cur) (end_sec s)\<rparr>)"
    using Cons.prems(1) by (cases k) (auto simp: seg_key_def)
  then have "\<forall>x\<in>set (sweep g (cur\<lparr>end_sec := max (end_sec cur) (end_sec s)\<rparr>) ss). k \<le> seg_key x"
    using Cons.IH Cons.prems(2) by simp
  moreover have "\<forall>x\<in>set (sweep g s ss). k \<le> seg_key x"
    using Cons.IH [of s] Cons.prems(2) by simp
  ultimately show ?case using Cons.prems(1) by simp
qed

lemma sweep_sorted_key:
  "sorted (map seg_key (cur # ss)) \<Longrightarrow> sorted (map seg_key (sweep g cur ss))"
proof (induction ss arbitrary: cur)
  case Nil
  then show ?case by simp
next
  case (Cons s ss)
  show ?case
  proof (cases "start_sec s \<le> end_sec cur + g")
    case True
    let ?c = "cur\<lparr>end_sec := max (end_sec cur) (end_sec s)\<rparr>"
    have "\<forall>t\<in>set ss. seg_key ?c \<le> seg_key t"
    proof
      fix t assume t: "t \<in> set ss"
      have "seg_key cur \<le> seg_key s" "seg_key s \<le> seg_key t" "seg_key cur \<le> seg_key t"
        using Cons.prems t by auto
      then show "seg_key ?c \<le> seg_key t"
        by (auto simp: seg_key_def)
    qed
    moreover have "sorted (map seg_key ss)"
      using Cons.prems by simp
    ultimately have "sorted (map seg_key (?c # ss))" by simp
    then show ?thesis using Cons.IH True by simp
  next
    case False
    have "sorted (map seg_key (sweep g s ss))"
      using Cons.IH [of s] Cons.prems by simp
    moreover have "\<forall>x\<in>set (sweep g s ss). seg_key cur \<le> seg_key x"
      using sweep_key_lower [of "seg_key cur" s ss g] Cons.prems by simp
    ultimately show ?thesis using False by simp
  qed
qed

lemma sweep_covers:
  "sorted (map start_sec ss) \<Longrightarrow> \<forall>t\<in>set ss. start_sec cur \<le> start_sec t \<Longrightarrow>
   (\<exists>x\<in>set (sweep g cur ss). start_sec x = start_sec cur \<and> end_sec cur \<le> end_sec x) \<and>
   (\<forall>t\<in>set ss. \<exists>x\<in>set (sweep g cur ss). start_sec x \<le> start_sec t \<and> end_sec t \<le> end_sec x)"
proof (induction ss arbitrary: cur)
  case Nil
  then show ?case by simp
next
  case (Cons s ss)
  show ?case
  proof (cases "start_sec s \<le> end_sec cur + g")
    case True
    let ?c = "cur\<lparr>end_sec := max (end_sec cur) (end_sec s)\<rparr>"
    have ih: "(\<exists>x\<in>set (sweep g ?c ss). start_sec x = start_sec ?c \<and> end_sec ?c \<le> end_sec x) \<and>
      (\<forall>t\<in>set ss. \<exists>x\<in>set (sweep g ?c ss). start_sec x \<le> start_sec t \<and> end_sec t \<le> end_sec x)"
      using Cons.IH [of ?c] Cons.prems by simp
    then obtain x where x: "x \<in> set (sweep g ?c ss)" "start_sec x = start_sec cur"
      "max (end_sec cur) (end_sec s) \<le> end_sec x"
      by auto
    have xs: "start_sec x \<le> start_sec s \<and> end_sec s \<le> end_sec x"
      using x Cons.prems(2) by simp
    have xc: "start_sec x = start_sec cur \<and> end_sec cur \<le> end_sec x"
      using x by simp
    have sw: "sweep g cur (s # ss) = sweep g ?c ss"
      using True by simp
    have "\<exists>y\<in>set (sweep g ?c ss). start_sec y = start_sec cur \<and> end_sec cur \<le> end_sec y"
      using x(1) xc by blast
    moreover have "\<forall>t\<in>set (s # ss). \<exists>y\<in>set (sweep g ?c ss).
        start_sec y \<le> start_sec t \<and> end_sec t \<le> end_sec y"
    proof
      fix t assume "t \<in> set (s # ss)"
      then consider "t = s" | "t \<in> set ss" by auto
      then show "\<exists>y\<in>set (sweep g ?c ss). start_sec y \<le> start_sec t \<and> end_sec t \<le> end_sec y"
      proof cases
        case 1
        then show ?thesis using x(1) xs by blast
      next
        case 2
        then show ?thesis using ih by blast
      qed
    qed
    ultimately show ?thesis unfolding sw by blast
  next
    case False
    have ih: "(\<exists>x\<in>set (sweep g s ss). start_sec x = start_sec s \<and> end_sec s \<le> end_sec x) \<and>
      (\<forall>t\<in>set ss. \<exists>x\<in>set (sweep g s ss). start_sec x \<le> start_sec t \<and> end_sec t \<le> end_sec x)"
      using Cons.IH [of s] Cons.prems(1) by simp
    then show ?thesis using False by auto
  qed
qed

lemma sweep_starts:
  "\<forall>x\<in>set (sweep g cur ss). \<exists>s\<in>set (cur # ss). start_sec x = start_sec s"
proof (induction ss arbitrary: cur)
  case Nil
  then show ?case by simp
next
  case (Cons s ss)
  show ?case
  proof (cases "start_sec s \<le> end_sec cur + g")
    case True
    with Cons.IH [of "cur\<lparr>end_sec := max (end_sec cur) (end_sec s)\<rparr>"] show ?thesis
      by auto
  next
    case False
    with Cons.IH [of s] show ?thesis by auto
  qed
qed

lemma sorted_key_start: "sorted (map seg_key xs) \<Longrightarrow> sorted (map start_sec xs)"
  by (induction xs) (auto simp: seg_key_def)

lemma sort_key_hd_tl: "xs \<noteq> [] \<Longrightarrow> hd (sort_key f xs) # tl (sort_key f xs) = sort_key f xs"
proof -
  assume "xs \<noteq> []"
  then have "length (sort_key f xs) \<noteq> 0" by simp
  then have "sort_key f xs \<noteq> []" by (simp del: length_sort)
  then show ?thesis by simp
qed

lemma merge_as_sweep:
  assumes "segments \<noteq> []"
  obtains h t where "sort_key seg_key segments = h # t"
    and "merge_overlapping_or_adjacent segments g = sweep g h t"
    and "set (h # t) = set segments"
    and "sorted (map seg_key (h # t))"
proof -
  have ne: "hd (sort_key seg_key segments) # tl (sort_key seg_key segments) = sort_key seg_key segments"
    using assms by (rule sort_key_hd_tl)
  let ?h = "hd (sort_key seg_key segments)" and ?t = "tl (sort_key seg_key segments)"
  have "sort_key seg_key segments = ?h # ?t"
    using ne by simp
  moreover have "merge_overlapping_or_adjacent segments g = sweep g ?h ?t"
    using assms by (rule merge_sweep)
  moreover have "set (?h # ?t) = set segments"
    unfolding ne by simp
  moreover have "sorted (map seg_key (?h # ?t))"
    unfolding ne by (rule sorted_sort_key)
  ultimately show thesis by (rule that)
qed

lemma merge_apart: "successively (apart g) (merge_overlapping_or_adjacent segments g)"
proof (cases "segments = []")
  case True
  then show ?thesis by (simp add: merge_overlapping_or_adjacent_def)
next
  case False
  then obtain h t where "merge_overlapping_or_adjacent segments g = sweep g h t"
    by (rule merge_as_sweep)
  then show ?thesis by (simp add: sweep_apart)
qed

lemma merge_sorted_key: "sorted (map seg_key (merge_overlapping_or_adjacent segments g))"
proof (cases "segments = []")
  case True
  then show ?thesis by (simp add: merge_overlapping_or_adjacent_def)
next
  case False
  then obtain h t where "merge_overlapping_or_adjacent segments g = sweep g h t"
    and "sorted (map seg_key (h # t))"
    by (rule merge_as_sweep)
  then show ?thesis by (simp only: sweep_sorted_key)
qed


lemma merge_example:
  "merge_overlapping_or_adjacent
     [\<lparr>start_sec = 0, end_sec = 10, reason = ''a''\<rparr>,
      \<lparr>start_sec = 9, end_sec = 20, reason = ''b''\<rparr>,
      \<lparr>start_sec = 25, end_sec = 30, reason = ''c''\<rparr>] 2 =
     [\<lparr>start_sec = 0, end_sec = 20, reason = ''a''\<rparr>,
      \<lparr>start_sec = 25, end_sec = 30, reason = ''c''\<rparr>]"
  by (simp add: merge_overlapping_or_adjacent_def seg_key_def Let_def)

section \<open>Claims about the segment merger\<close>



text \<open>
  C8. The merger is idempotent: for every input list and every gap tolerance that is not
  negative, merging the output of \<open>merge_overlapping_or_adjacent\<close> again returns that output
  unchanged, element for element (starts, ends and reasons).
\<close>

theorem merge_idempotent:
  assumes "0 \<le> gap_sec"
  shows "merge_overlapping_or_adjacent (merge_overlapping_or_adjacent segments gap_sec) gap_sec
         = merge_overlapping_or_adjacent segments gap_sec"
proof (cases "merge_overlapping_or_adjacent segments gap_sec")
  case Nil
  then show ?thesis by (simp add: merge_overlapping_or_adjacent_def)
next
  case (Cons y ys)
  have "sorted (map seg_key (y # ys))"
    using merge_sorted_key [of segments gap_sec] Cons by simp
  then have srt: "sort_key seg_key (y # ys) = y # ys"
    by (rule sort_key_id_if_sorted)
  have "successively (apart gap_sec) (y # ys)"
    using merge_apart [of gap_sec segments] Cons by simp
  then have "sweep gap_sec y ys = y # ys"
    by (rule sweep_keeps_self)
  moreover have "merge_overlapping_or_adjacent (y # ys) gap_sec = sweep gap_sec y ys"
    using merge_sweep [of "y # ys" gap_sec] srt by simp
  ultimately show ?thesis using Cons by simp
qed

theorem merge_idempotent_witness:
  "(0::real) \<le> 2 \<and>
   merge_overlapping_or_adjacent
     [\<lparr>start_sec = 0, end_sec = 20, reason = ''a''\<rparr>,
      \<lparr>start_sec = 25, end_sec = 30, reason = ''c''\<rparr>] 2 =
     [\<lparr>start_sec = 0, end_sec = 20, reason = ''a''\<rparr>,
      \<lparr>start_sec = 25, end_sec = 30, reason = ''c''\<rparr>]"
proof -
  have h: "(0::real) \<le> 2" by simp
  show ?thesis
    using h merge_idempotent [OF h, of
        "[\<lparr>start_sec = 0, end_sec = 10, reason = ''a''\<rparr>,
          \<lparr>start_sec = 9, end_sec = 20, reason = ''b''\<rparr>,
          \<lparr>start_sec = 25, end_sec = 30, reason = ''c''\<rparr>]"]
    by (simp add: merge_example)
qed

text \<open>
  C10. The merger never loses coverage: for every input list and every gap tolerance that is
  not negative, the interval \<open>[start, end]\<close> of every input segment is contained in the
  interval of some output segment, and the start of every output segment is the start of some
  input segment.
\<close>

theorem merge_covers_inputs:
  assumes "0 \<le> gap_sec"
  shows "(\<forall>s\<in>set segments. \<exists>x\<in>set (merge_overlapping_or_adjacent segments gap_sec).
            start_sec x \<le> start_sec s \<and> end_sec s \<le> end_sec x) \<and>
         (\<forall>x\<in>set (merge_overlapping_or_adjacent segments gap_sec). \<exists>s\<in>set segments.
            start_sec x = start_sec s)"
proof (cases "segments = []")
  case True
  then show ?thesis by (simp add: merge_overlapping_or_adjacent_def)
next
  case False
  then obtain h t where m: "merge_overlapping_or_adjacent segments gap_sec = sweep gap_sec h t"
    and st: "set (h # t) = set segments"
    and so: "sorted (map seg_key (h # t))"
    by (rule merge_as_sweep)
  have "sorted (map start_sec (h # t))"
    using so by (rule sorted_key_start)
  then have "sorted (map start_sec t)" and "\<forall>x\<in>set t. start_sec h \<le> start_sec x"
    by simp_all
  then have cov: "(\<exists>x\<in>set (sweep gap_sec h t). start_sec x = start_sec h \<and> end_sec h \<le> end_sec x) \<and>
      (\<forall>s\<in>set t. \<exists>x\<in>set (sweep gap_sec h t). start_sec x \<le> start_sec s \<and> end_sec s \<le> end_sec x)"
    by (rule sweep_covers)
  have "\<forall>s\<in>set (h # t). \<exists>x\<in>set (sweep gap_sec h t).
          start_sec x \<le> start_sec s \<and> end_sec s \<le> end_sec x"
  proof
    fix s assume "s \<in> set (h # t)"
    then consider "s = h" | "s \<in> set t" by auto
    then show "\<exists>x\<in>set (sweep gap_sec h t). start_sec x \<le> start_sec s \<and> end_sec s \<le> end_sec x"
    proof cases
      case 1
      obtain x where x: "x \<in> set (sweep gap_sec h t)"
        and xh: "start_sec x = start_sec h" "end_sec h \<le> end_sec x"
        using cov by blast
      have "start_sec x \<le> start_sec s \<and> end_sec s \<le> end_sec x"
        using xh 1 by simp
      then show ?thesis using x by blast
    next
      case 2
      then show ?thesis using cov by blast
    qed
  qed
  moreover have "\<forall>x\<in>set (sweep gap_sec h t). \<exists>s\<in>set (h # t). start_sec x = start_sec s"
    by (rule sweep_starts)
  ultimately show ?thesis unfolding m st by blast
qed

theorem merge_covers_inputs_witness:
  "(0::real) \<le> 2 \<and>
   list_all (\<lambda>s. list_ex (\<lambda>x. start_sec x \<le> start_sec s \<and> end_sec s \<le> end_sec x)
       [\<lparr>start_sec = 0, end_sec = 20, reason = ''a''\<rparr>,
        \<lparr>start_sec = 25, end_sec = 30, reason = ''c''\<rparr>])
     [\<lparr>start_sec = 0, end_sec = 10, reason = ''a''\<rparr>,
      \<lparr>start_sec = 9, end_sec = 20, reason = ''b''\<rparr>,
      \<lparr>start_sec = 25, end_sec = 30, reason = ''c''\<rparr>] \<and>
   list_all (\<lambda>x. list_ex (\<lambda>s. start_sec x = start_sec s)
       [\<lparr>start_sec = 0, end_sec = 10, reason = ''a''\<rparr>,
        \<lparr>start_sec = 9, end_sec = 20, reason = ''b''\<rparr>,
        \<lparr>start_sec = 25, end_sec = 30, reason = ''c''\<rparr>])
     [\<lparr>start_sec = 0, end_sec = 20, reason = ''a''\<rparr>,
      \<lparr>start_sec = 25, end_sec = 30, reason = ''c''\<rparr>]"
proof -
  have h: "(0::real) \<le> 2" by simp
  show ?thesis
    unfolding list_all_iff list_ex_iff
    using h merge_covers_inputs [OF h, of
        "[\<lparr>start_sec = 0, end_sec = 10, reason = ''a''\<rparr>,
          \<lparr>start_sec = 9, end_sec = 20, reason = ''b''\<rparr>,
          \<lparr>start_sec = 25, end_sec = 30, reason = ''c''\<rparr>]"]
    unfolding merge_example by blast
qed
section \<open>Properties of the duration capper\<close>






section \<open>Claim about the duration capper\<close>




section \<open>Properties of the orchestrator\<close>




lemma pipeline_example_completes:
  "run_pipeline always_answers default_config two_chunks =
     Inr \<lparr>highlight_duration_sec = 5,
          highlight_segments =
            [\<lparr>start_sec = 1, end_sec = 7 / 2, reason = ''goal''\<rparr>,
             \<lparr>start_sec = 83, end_sec = 171 / 2, reason = ''goal''\<rparr>],
          num_chunks = 2\<rparr>"
  by code_simp

section \<open>Claim about the orchestrator\<close>




end
